theory Spec2Isabelle
  imports Complex_Main "HOL-Library.Multiset" "HOL-Library.Log_Nat"
begin

section \<open>Values shared by the two tool classes of \<^verbatim>\<open>src/js/image-tools.js\<close>\<close>

text \<open>
  A JavaScript exception is a value: \<open>Error msg\<close> is \<^verbatim>\<open>new Error(msg)\<close>, \<open>TypeError msg\<close>
  is the exception the runtime raises when a property of \<^verbatim>\<open>undefined\<close> is read. A function
  that may throw (or a promise that may reject) returns \<open>error + 'a\<close>, \<open>Inl\<close> being the throw.
\<close>

datatype error = Error string | TypeError string

type_synonym bytes = "nat list"

text \<open>A \<^verbatim>\<open>Blob\<close>: its bytes and its media type; \<^verbatim>\<open>blob.size\<close> is the number of bytes.\<close>

record blob =
  blob_data :: bytes
  blob_type :: string

definition blob_size :: "blob \<Rightarrow> nat" where
  "blob_size b = length (blob_data b)"

text \<open>A \<^verbatim>\<open>File\<close>: a blob with a name. \<^verbatim>\<open>file.arrayBuffer()\<close> reads \<open>file_data\<close>.\<close>

record js_file =
  file_name :: string
  file_type :: string
  file_data :: bytes

section \<open>The PDF library as the code uses it\<close>

text \<open>
  \<^verbatim>\<open>PDFLib\<close> is a third-party library. A loaded document is the list of its pages (of any
  type \<open>'p\<close>). The parser and the serialiser are parameters of every operation below:
  \<open>load :: bytes \<Rightarrow> error + 'p list\<close> is \<^verbatim>\<open>PDFDocument.load\<close> (it throws on bytes it cannot
  decode) and \<open>save :: 'p list \<Rightarrow> bytes\<close> is \<^verbatim>\<open>doc.save()\<close>, whose treatment of a document
  without pages is \<open>save_document\<close> below. The remaining calls are page-list operations.
\<close>

definition create :: "'p list" where
  "create = []"

definition getPageCount :: "'p list \<Rightarrow> nat" where
  "getPageCount pdf = length pdf"

definition getPageIndices :: "'p list \<Rightarrow> int list" where
  "getPageIndices pdf = map int [0..<length pdf]"

definition addPage :: "'p list \<Rightarrow> 'p \<Rightarrow> 'p list" where
  "addPage doc page = doc @ [page]"

text \<open>
  \<^verbatim>\<open>dst.copyPages(src, indices)\<close> reads \<^verbatim>\<open>src.getPages()[i].node\<close> for each index in turn: an
  index outside the document reads a property of \<^verbatim>\<open>undefined\<close> and throws.
\<close>

definition in_document :: "'p list \<Rightarrow> int \<Rightarrow> bool" where
  "in_document src i = (0 \<le> i \<and> i < int (length src))"

definition copyPages :: "'p list \<Rightarrow> int list \<Rightarrow> error + 'p list" where
  "copyPages src indices =
     (if list_all (in_document src) indices
      then Inr (map (\<lambda>i. src ! nat i) indices)
      else Inl (TypeError ''Cannot read properties of undefined (reading 'node')''))"

text \<open>
  What \<^verbatim>\<open>doc.save()\<close> serialises. The library does not write a document without pages:
  \<^verbatim>\<open>save\<close> first adds one blank page to such a document (its \<^verbatim>\<open>addDefaultPage\<close> option,
  which the code leaves at its default) and then writes the pages. \<open>write\<close> is the
  writer of a page list and \<open>blank\<close> the page the library adds; \<open>saved_pages\<close> are the
  pages of the document the returned bytes hold.
\<close>

definition saved_pages :: "'p \<Rightarrow> 'p list \<Rightarrow> 'p list" where
  "saved_pages blank doc = (if getPageCount doc = 0 then addPage doc blank else doc)"

definition save_document :: "('p list \<Rightarrow> bytes) \<Rightarrow> 'p \<Rightarrow> 'p list \<Rightarrow> bytes" where
  "save_document write blank doc = write (saved_pages blank doc)"

section \<open>\<^verbatim>\<open>PDFTools.mergePDFs\<close>\<close>

text \<open>
  The \<^verbatim>\<open>for (const file of files)\<close> loop, its state being the destination document and the
  running \<^verbatim>\<open>totalPages\<close>. A throw inside the loop leaves the function through the
  \<^verbatim>\<open>catch\<close>, which rethrows.
\<close>

fun merge_loop ::
  "(bytes \<Rightarrow> error + 'p list) \<Rightarrow> js_file list \<Rightarrow> 'p list \<times> nat \<Rightarrow> error + 'p list \<times> nat" where
  "merge_loop load [] (mergedPdf, totalPages) = Inr (mergedPdf, totalPages)"
| "merge_loop load (f # files) (mergedPdf, totalPages) =
     (case load (file_data f) of
        Inl e \<Rightarrow> Inl e
      | Inr pdf \<Rightarrow>
          (case copyPages pdf (getPageIndices pdf) of
             Inl e \<Rightarrow> Inl e
           | Inr copiedPages \<Rightarrow>
               merge_loop load files
                 (foldl addPage mergedPdf copiedPages, totalPages + getPageCount pdf)))"

text \<open>The object \<^verbatim>\<open>mergePDFs\<close> returns; its \<^verbatim>\<open>size\<close> property is \<open>size_bytes\<close>.\<close>

record merge_result =
  blob :: blob
  size_bytes :: nat
  pages :: nat

definition mergePDFs ::
  "(bytes \<Rightarrow> error + 'p list) \<Rightarrow> ('p list \<Rightarrow> bytes) \<Rightarrow> js_file list \<Rightarrow> error + merge_result" where
  "mergePDFs load save files =
     (case merge_loop load files (create, 0) of
        Inl e \<Rightarrow> Inl e
      | Inr (mergedPdf, totalPages) \<Rightarrow>
          (let mergedBlob = \<lparr>blob_data = save mergedPdf, blob_type = ''application/pdf''\<rparr>
           in Inr \<lparr>blob = mergedBlob, size_bytes = blob_size mergedBlob, pages = totalPages\<rparr>))"

section \<open>\<^verbatim>\<open>PDFTools.getPDFPageCount\<close>\<close>

text \<open>The \<^verbatim>\<open>catch\<close> returns 0 instead of rethrowing.\<close>

definition getPDFPageCount :: "(bytes \<Rightarrow> error + 'p list) \<Rightarrow> js_file \<Rightarrow> error + nat" where
  "getPDFPageCount load f =
     (case load (file_data f) of
        Inl e \<Rightarrow> Inr 0
      | Inr pdf \<Rightarrow> Inr (getPageCount pdf))"

section \<open>Strings the code builds\<close>

text \<open>
  \<^verbatim>\<open>name.replace(/\.[^/.]+$/, "")\<close>: the engine tries each position from the left; a match
  is a dot followed, up to the end of the string, by one or more characters that are
  neither a dot nor a slash. The match (there is at most one) is removed.
\<close>

definition ext_char :: "char \<Rightarrow> bool" where
  "ext_char c = (c \<noteq> CHR ''.'' \<and> c \<noteq> CHR ''/'')"

fun strip_ext :: "string \<Rightarrow> string" where
  "strip_ext [] = []"
| "strip_ext (c # cs) =
     (if c = CHR ''.'' \<and> cs \<noteq> [] \<and> list_all ext_char cs then [] else c # strip_ext cs)"

text \<open>Template-literal rendering of an integer-valued number (decimal, a minus sign first).\<close>

definition digit_char :: "nat \<Rightarrow> char" where
  "digit_char d = char_of (48 + d)"

fun show_nat :: "nat \<Rightarrow> string" where
  "show_nat n = (if n < 10 then [digit_char n] else show_nat (n div 10) @ [digit_char (n mod 10)])"

declare show_nat.simps [simp del]

definition show_int :: "int \<Rightarrow> string" where
  "show_int i = (if i < 0 then CHR ''-'' # show_nat (nat (- i)) else show_nat (nat i))"

text \<open>\<^verbatim>\<open>Array.prototype.join\<close>.\<close>

fun join :: "string \<Rightarrow> string list \<Rightarrow> string" where
  "join sep [] = []"
| "join sep [x] = x"
| "join sep (x # y # ys) = x @ sep @ join sep (y # ys)"

text \<open>\<^verbatim>\<open>Array.from({ length: n }, (_, i) => f(i))\<close>.\<close>

definition array_from :: "nat \<Rightarrow> (nat \<Rightarrow> 'a) \<Rightarrow> 'a list" where
  "array_from n f = map f [0..<n]"

section \<open>\<^verbatim>\<open>PDFTools.splitPDF\<close>\<close>

text \<open>
  The \<^verbatim>\<open>options\<close> object: each property is a number (an integer here: page numbers), a list
  of numbers, or absent (\<open>None\<close>, JavaScript's \<^verbatim>\<open>undefined\<close>). \<^verbatim>\<open>x || d\<close> yields \<open>d\<close> when
  \<open>x\<close> is absent or 0.
\<close>

record split_options =
  opt_start :: "int option"
  opt_end :: "int option"
  opt_selectedPages :: "int list option"

definition js_or :: "int option \<Rightarrow> int \<Rightarrow> int" where
  "js_or x d = (case x of None \<Rightarrow> d | Some v \<Rightarrow> if v = 0 then d else v)"

text \<open>The \<^verbatim>\<open>switch (splitMethod)\<close>: the value of \<^verbatim>\<open>pageIndices\<close> after it, or the throw.\<close>

definition pageIndexSets :: "nat \<Rightarrow> string \<Rightarrow> split_options \<Rightarrow> error + int list list" where
  "pageIndexSets totalPages splitMethod options =
     (if splitMethod = ''all'' then
        Inr (array_from totalPages (\<lambda>i. [int i]))
      else if splitMethod = ''range'' then
        (let start = max 1 (js_or (opt_start options) 1) - 1;
             end = min (int totalPages) (js_or (opt_end options) (int totalPages)) - 1
         in if start > end then Inl (Error ''Invalid page range'')
            else Inr [array_from (nat (end - start + 1)) (\<lambda>i. start + int i)])
      else if splitMethod = ''custom'' then
        (case opt_selectedPages options of
           None \<Rightarrow> Inl (Error ''No pages selected'')
         | Some selectedPages \<Rightarrow>
             if length selectedPages = 0 then Inl (Error ''No pages selected'')
             else Inr [sort (map (\<lambda>p. p - 1) selectedPages)])
      else Inl (Error ''Invalid split method''))"

text \<open>
  The name of one output file. \<^verbatim>\<open>indices[0] + 1\<close> on an empty list is
  \<^verbatim>\<open>undefined + 1\<close>, which prints as \<^verbatim>\<open>NaN\<close>.
\<close>

definition show_plus_one :: "int option \<Rightarrow> string" where
  "show_plus_one x = (case x of None \<Rightarrow> ''NaN'' | Some i \<Rightarrow> show_int (i + 1))"

definition first_index :: "int list \<Rightarrow> int option" where
  "first_index indices = (case indices of [] \<Rightarrow> None | i # _ \<Rightarrow> Some i)"

definition last_index :: "int list \<Rightarrow> int option" where
  "last_index indices = (if indices = [] then None else Some (last indices))"

definition split_file_name :: "string \<Rightarrow> string \<Rightarrow> nat \<Rightarrow> int list \<Rightarrow> string" where
  "split_file_name name splitMethod nsets indices =
     (let fileName = strip_ext name;
          fileName' =
            (if nsets > 1 \<or> splitMethod = ''all'' then
               fileName @ ''_pages_'' @ join ''-'' (map (\<lambda>i. show_int (i + 1)) indices)
             else if splitMethod = ''range'' then
               fileName @ ''_pages_'' @ show_plus_one (first_index indices) @ ''-''
                 @ show_plus_one (last_index indices)
             else fileName)
      in fileName' @ ''.pdf'')"

text \<open>One pass of the \<^verbatim>\<open>for (const indices of pageIndices)\<close> loop body: the file it pushes.\<close>

definition split_one ::
  "('p list \<Rightarrow> bytes) \<Rightarrow> js_file \<Rightarrow> 'p list \<Rightarrow> string \<Rightarrow> nat \<Rightarrow> int list \<Rightarrow> error + js_file" where
  "split_one save f pdf splitMethod nsets indices =
     (case copyPages pdf indices of
        Inl e \<Rightarrow> Inl e
      | Inr copiedPages \<Rightarrow>
          (let newPdf = foldl addPage create copiedPages;
               pdfBlob = \<lparr>blob_data = save newPdf, blob_type = ''application/pdf''\<rparr>
           in Inr \<lparr>file_name = split_file_name (file_name f) splitMethod nsets indices,
                   file_type = ''application/pdf'',
                   file_data = blob_data pdfBlob\<rparr>))"

text \<open>The file one pass of the split loop pushes when every index is a page.\<close>

definition split_file ::
  "('p list \<Rightarrow> bytes) \<Rightarrow> js_file \<Rightarrow> 'p list \<Rightarrow> string \<Rightarrow> nat \<Rightarrow> int list \<Rightarrow> js_file" where
  "split_file save f pdf m n idx =
     \<lparr>file_name = split_file_name (file_name f) m n idx,
      file_type = ''application/pdf'',
      file_data = save (map (\<lambda>i. pdf ! nat i) idx)\<rparr>"

fun split_loop ::
  "('p list \<Rightarrow> bytes) \<Rightarrow> js_file \<Rightarrow> 'p list \<Rightarrow> string \<Rightarrow> nat \<Rightarrow> int list list \<Rightarrow> js_file list
     \<Rightarrow> error + js_file list" where
  "split_loop save f pdf splitMethod nsets [] splitFiles = Inr splitFiles"
| "split_loop save f pdf splitMethod nsets (indices # rest) splitFiles =
     (case split_one save f pdf splitMethod nsets indices of
        Inl e \<Rightarrow> Inl e
      | Inr pdfFile \<Rightarrow> split_loop save f pdf splitMethod nsets rest (splitFiles @ [pdfFile]))"

record split_result =
  files :: "js_file list"
  totalPages :: nat

definition splitPDF ::
  "(bytes \<Rightarrow> error + 'p list) \<Rightarrow> ('p list \<Rightarrow> bytes) \<Rightarrow> js_file \<Rightarrow> string \<Rightarrow> split_options
     \<Rightarrow> error + split_result" where
  "splitPDF load save f splitMethod options =
     (case load (file_data f) of
        Inl e \<Rightarrow> Inl e
      | Inr pdf \<Rightarrow>
          (case pageIndexSets (getPageCount pdf) splitMethod options of
             Inl e \<Rightarrow> Inl e
           | Inr pageIndices \<Rightarrow>
               (case split_loop save f pdf splitMethod (length pageIndices) pageIndices [] of
                  Inl e \<Rightarrow> Inl e
                | Inr splitFiles \<Rightarrow>
                    Inr \<lparr>files = splitFiles, totalPages = getPageCount pdf\<rparr>)))"

text \<open>
  The three messages \<^verbatim>\<open>splitPDF\<close> throws by itself: the errors that reject a parameter, as
  opposed to a decode failure (thrown by \<open>load\<close>) or a failed page copy.
\<close>

definition invalid_parameter :: "error \<Rightarrow> bool" where
  "invalid_parameter e =
     (e = Error ''Invalid page range'' \<or> e = Error ''No pages selected''
      \<or> e = Error ''Invalid split method'')"

text \<open>
  The parameters \<^verbatim>\<open>splitPDF\<close> rejects on a document of \<open>n\<close> pages, read off the
  \<^verbatim>\<open>switch\<close>: an inverted range after defaulting and clamping, an absent or empty
  selection, a method that is none of the three.
\<close>

definition rejected :: "nat \<Rightarrow> string \<Rightarrow> split_options \<Rightarrow> bool" where
  "rejected n m opts =
     (m = ''range''
        \<and> max 1 (js_or (opt_start opts) 1) > min (int n) (js_or (opt_end opts) (int n))
      \<or> m = ''custom'' \<and> (opt_selectedPages opts = None \<or> opt_selectedPages opts = Some [])
      \<or> m \<noteq> ''all'' \<and> m \<noteq> ''range'' \<and> m \<noteq> ''custom'')"

section \<open>\<^verbatim>\<open>ImageTools.convertToWebP\<close>\<close>

text \<open>
  A decoded image has its natural size and its pixels (of any type \<open>'x\<close>); the browser's
  decoder is the parameter \<open>decode\<close>, \<open>None\<close> being the \<^verbatim>\<open>onerror\<close> event. A canvas has the
  size assigned to it and the image drawn on it. The encoder is the parameter \<open>encode\<close>:
  the bytes \<^verbatim>\<open>dataURLToBlob(canvas.toDataURL(mimeType, quality))\<close> holds. Qualities are
  rationals (0.8 is 4/5).
\<close>

record 'x image =
  img_width :: nat
  img_height :: nat
  img_pixels :: 'x

record 'x canvas =
  canvas_width :: nat
  canvas_height :: nat
  canvas_drawn :: "'x image"

definition convertToWebP ::
  "(bytes \<Rightarrow> 'x image option) \<Rightarrow> ('x canvas \<Rightarrow> string \<Rightarrow> rat \<Rightarrow> bytes) \<Rightarrow> js_file \<Rightarrow> rat \<Rightarrow> bool
     \<Rightarrow> error + js_file" where
  "convertToWebP decode encode f quality lossless =
     (case decode (file_data f) of
        None \<Rightarrow> Inl (Error ''Failed to load image'')
      | Some img \<Rightarrow>
          (let canvas = \<lparr>canvas_width = img_width img, canvas_height = img_height img,
                         canvas_drawn = img\<rparr>;
               qualityParam = (if lossless then 1 else quality);
               webpBlob = encode canvas ''image/webp'' qualityParam
           in Inr \<lparr>file_name = strip_ext (file_name f) @ ''.webp'',
                   file_type = ''image/webp'',
                   file_data = webpBlob\<rparr>))"

section \<open>\<^verbatim>\<open>ImageTools.resizeImage\<close>: the size of the output\<close>

text \<open>
  The values of the \<^verbatim>\<open>onload\<close> handler. A JavaScript number is an IEEE-754 double: \<open>Num q\<close>
  is the finite double whose exact value is the rational \<open>q\<close>; a variable can also hold
  \<^verbatim>\<open>NaN\<close>, \<^verbatim>\<open>Infinity\<close> or \<^verbatim>\<open>undefined\<close>. Natural sizes and requested dimensions are
  numbers of pixels, never negative, so the model has no negative number and no negative
  zero.
\<close>

datatype jsnum = Undefined | NaN | Infinity | Num rat

text \<open>
  Every arithmetic result is the exact result rounded to the nearest double, ties to the
  even mantissa (\<open>rnd\<close>). A positive double is \<open>m * 2 ^ e\<close> with \<open>m < 2 ^ 53\<close> and
  \<open>- 1074 \<le> e\<close>; what rounds to \<open>2 ^ 1024\<close> or more is \<^verbatim>\<open>Infinity\<close>. \<open>ilog2 x\<close> is the
  exponent of the power of two at or below a positive \<open>x\<close>, found from the bit lengths of
  its numerator and denominator.
\<close>

definition ilog2 :: "rat \<Rightarrow> int" where
  "ilog2 x = (let (a, b) = quotient_of x; k = bitlen a - bitlen b
              in if 2 powi k \<le> x then k else k - 1)"

definition round_even :: "rat \<Rightarrow> int" where
  "round_even x = (let n = \<lfloor>x\<rfloor>; r = x - of_int n
                   in if r < 1 / 2 then n else if 1 / 2 < r then n + 1
                      else if even n then n else n + 1)"

definition rnd :: "rat \<Rightarrow> jsnum" where
  "rnd x = (if x = 0 then Num 0
            else let e = ilog2 x;
                     q = 2 powi (max (e - 52) (- 1074));
                     m = round_even (x / q)
                 in if 1024 \<le> e \<or> (e = 1023 \<and> m = 2 ^ 53) then Infinity
                    else Num (of_int m * q))"

text \<open>
  \<^verbatim>\<open>a / b\<close>, \<^verbatim>\<open>a * b\<close> and \<^verbatim>\<open>Math.min(a, b)\<close> on these values (\<^verbatim>\<open>undefined\<close> converts to
  \<^verbatim>\<open>NaN\<close>), and the value of \<^verbatim>\<open>a\<close> in a condition.
\<close>

fun js_div :: "jsnum \<Rightarrow> jsnum \<Rightarrow> jsnum" where
  "js_div (Num a) (Num b) = (if b = 0 then (if a = 0 then NaN else Infinity) else rnd (a / b))"
| "js_div (Num a) Infinity = Num 0"
| "js_div Infinity (Num b) = Infinity"
| "js_div _ _ = NaN"

fun js_mul :: "jsnum \<Rightarrow> jsnum \<Rightarrow> jsnum" where
  "js_mul (Num a) (Num b) = rnd (a * b)"
| "js_mul (Num a) Infinity = (if a = 0 then NaN else Infinity)"
| "js_mul Infinity (Num b) = (if b = 0 then NaN else Infinity)"
| "js_mul Infinity Infinity = Infinity"
| "js_mul _ _ = NaN"

fun js_min :: "jsnum \<Rightarrow> jsnum \<Rightarrow> jsnum" where
  "js_min (Num a) (Num b) = Num (min a b)"
| "js_min (Num a) Infinity = Num a"
| "js_min Infinity (Num b) = Num b"
| "js_min Infinity Infinity = Infinity"
| "js_min _ _ = NaN"

fun truthy :: "jsnum \<Rightarrow> bool" where
  "truthy (Num x) = (x \<noteq> 0)"
| "truthy Infinity = True"
| "truthy _ = False"

text \<open>
  The computation of \<^verbatim>\<open>newWidth\<close> and \<^verbatim>\<open>newHeight\<close>; \<open>imgW\<close> and \<open>imgH\<close> are \<^verbatim>\<open>img.width\<close>
  and \<^verbatim>\<open>img.height\<close>.
\<close>

definition resize_dims :: "jsnum \<Rightarrow> jsnum \<Rightarrow> jsnum \<Rightarrow> jsnum \<Rightarrow> bool \<Rightarrow> jsnum \<times> jsnum" where
  "resize_dims imgW imgH width height maintainAspectRatio =
     (if maintainAspectRatio then
        (let aspectRatio = js_div imgW imgH
         in if truthy width \<and> \<not> truthy height then (width, js_div width aspectRatio)
            else if truthy height \<and> \<not> truthy width then (js_mul height aspectRatio, height)
            else if truthy width \<and> truthy height then
              (let widthRatio = js_div width imgW;
                   heightRatio = js_div height imgH;
                   ratio = js_min widthRatio heightRatio
               in (js_mul imgW ratio, js_mul imgH ratio))
            else (width, height))
      else (width, height))"

text \<open>
  \<^verbatim>\<open>canvas.width = newWidth\<close> converts the value to an unsigned long: \<^verbatim>\<open>NaN\<close>,
  \<^verbatim>\<open>Infinity\<close> and \<^verbatim>\<open>undefined\<close> to 0, a finite number to its integer part modulo
  \<open>2 ^ 32\<close>. The canvas keeps a value up to \<open>2 ^ 31 - 1\<close> and takes its default (300 wide,
  150 high) for a larger one. The image the handler encodes has the size of the canvas.
\<close>

definition to_unsigned_long :: "jsnum \<Rightarrow> int" where
  "to_unsigned_long v = (case v of Num x \<Rightarrow> \<lfloor>x\<rfloor> mod 2 ^ 32 | _ \<Rightarrow> 0)"

definition canvas_dimension :: "int \<Rightarrow> jsnum \<Rightarrow> int" where
  "canvas_dimension dflt v = (let n = to_unsigned_long v in if n \<le> 2147483647 then n else dflt)"

definition resize_canvas :: "jsnum \<Rightarrow> jsnum \<Rightarrow> jsnum \<Rightarrow> jsnum \<Rightarrow> bool \<Rightarrow> int \<times> int" where
  "resize_canvas imgW imgH width height maintainAspectRatio =
     (let (newWidth, newHeight) = resize_dims imgW imgH width height maintainAspectRatio
      in (canvas_dimension 300 newWidth, canvas_dimension 150 newHeight))"

section \<open>Sample collaborators\<close>

text \<open>
  A concrete parser and serialiser to run the operations on: a document with one page per
  byte, which the empty file does not decode to.
\<close>

definition sample_load :: "bytes \<Rightarrow> error + nat list" where
  "sample_load bs = (if bs = [] then Inl (Error ''No PDF header found'') else Inr bs)"

definition sample_save :: "nat list \<Rightarrow> bytes" where
  "sample_save doc = doc"

definition pdf_file :: "string \<Rightarrow> bytes \<Rightarrow> js_file" where
  "pdf_file n bs = \<lparr>file_name = n, file_type = ''application/pdf'', file_data = bs\<rparr>"

text \<open>
  A concrete image decoder and encoder: the first two bytes of a file are the image's width
  and height, the rest its pixels; a shorter file does not decode. The encoding records
  the canvas size and the quality in percent.
\<close>

definition sample_decode :: "bytes \<Rightarrow> bytes image option" where
  "sample_decode bs =
     (case bs of
        w # h # px \<Rightarrow> Some \<lparr>img_width = w, img_height = h, img_pixels = px\<rparr>
      | _ \<Rightarrow> None)"

definition sample_encode :: "bytes canvas \<Rightarrow> string \<Rightarrow> rat \<Rightarrow> bytes" where
  "sample_encode c mimeType q =
     canvas_width c # canvas_height c # nat \<lfloor>q * 100\<rfloor> # img_pixels (canvas_drawn c)"

definition image_file :: "string \<Rightarrow> bytes \<Rightarrow> js_file" where
  "image_file n bs = \<lparr>file_name = n, file_type = ''image/png'', file_data = bs\<rparr>"

section \<open>Facts about the page-list operations and the merge loop\<close>

lemma foldl_addPage: "foldl addPage doc ps = doc @ ps"
  by (induction ps arbitrary: doc) (simp_all add: addPage_def)

lemma copyPages_getPageIndices: "copyPages pdf (getPageIndices pdf) = Inr pdf"
  by (simp add: copyPages_def getPageIndices_def in_document_def list_all_iff comp_def map_nth)

lemma merge_loop_decoded:
  "list_all2 (\<lambda>f d. load (file_data f) = Inr d) fs docs \<Longrightarrow>
     merge_loop load fs (m, t) = Inr (m @ concat docs, t + sum_list (map length docs))"
proof (induction fs docs arbitrary: m t rule: list_all2_induct)
  case Nil
  show ?case by simp
next
  case (Cons f fs d docs)
  show ?case
    using Cons.hyps(1) Cons.IH [of "m @ d" "t + length d"]
    by (simp add: copyPages_getPageIndices foldl_addPage getPageCount_def add.assoc)
qed

lemma merge_loop_undecodable:
  "\<exists>f\<in>set fs. isl (load (file_data f)) \<Longrightarrow> isl (merge_loop load fs (m, t))"
proof (induction fs arbitrary: m t)
  case Nil
  then show ?case by simp
next
  case (Cons f fs)
  show ?case
  proof (cases "load (file_data f)")
    case (Inl e)
    then show ?thesis by simp
  next
    case (Inr pdf)
    with Cons.prems have "\<exists>g\<in>set fs. isl (load (file_data g))" by auto
    from Cons.IH [OF this] Inr show ?thesis
      by (simp add: copyPages_getPageIndices)
  qed
qed

lemma mergePDFs_decoded:
  assumes "list_all2 (\<lambda>f d. load (file_data f) = Inr d) fs docs"
  shows "mergePDFs load save fs =
           Inr \<lparr>blob = \<lparr>blob_data = save (concat docs), blob_type = ''application/pdf''\<rparr>,
                size_bytes = length (save (concat docs)),
                pages = sum_list (map length docs)\<rparr>"
  using merge_loop_decoded [OF assms, of "[]" 0]
  by (simp add: mergePDFs_def create_def blob_size_def)

lemma mergePDFs_undecodable:
  "\<exists>f\<in>set fs. isl (load (file_data f)) \<Longrightarrow> isl (mergePDFs load save fs)"
  using merge_loop_undecodable [of fs load "[]" 0]
  by (auto simp: mergePDFs_def create_def isl_def)

section \<open>Merging\<close>

lemma saved_pages_nonempty: "doc \<noteq> [] \<Longrightarrow> saved_pages blank doc = doc"
  by (simp add: saved_pages_def getPageCount_def)

lemma saved_pages_empty: "saved_pages blank [] = [blank]"
  by (simp add: saved_pages_def getPageCount_def addPage_def)

text \<open>
  C1 (amended): when every file of the sequence decodes, \<open>mergePDFs\<close> reports the sum of the
  documents' page counts and returns what the library saves of their concatenation in
  input order (each document's pages in their own order, an earlier file's pages before a
  later file's); when the files hold at least one page that is the concatenation itself,
  whose length is the reported sum. When some file does not decode, \<open>mergePDFs\<close> throws
  and returns nothing.
\<close>

theorem mergePDFs_concatenates:
  "(list_all2 (\<lambda>f d. load (file_data f) = Inr d) fs docs \<longrightarrow>
      mergePDFs load (save_document write blank) fs =
        Inr \<lparr>blob = \<lparr>blob_data = write (saved_pages blank (concat docs)),
                     blob_type = ''application/pdf''\<rparr>,
             size_bytes = length (write (saved_pages blank (concat docs))),
             pages = sum_list (map length docs)\<rparr>
      \<and> (concat docs \<noteq> [] \<longrightarrow>
            saved_pages blank (concat docs) = concat docs
            \<and> length (saved_pages blank (concat docs)) = sum_list (map length docs)))
   \<and> ((\<exists>f\<in>set fs. isl (load (file_data f))) \<longrightarrow>
        isl (mergePDFs load (save_document write blank) fs))"
proof -
  have "length (concat docs) = sum_list (map length docs)"
    by (simp add: length_concat)
  then show ?thesis
    by (simp add: mergePDFs_decoded mergePDFs_undecodable save_document_def
        saved_pages_nonempty)
qed

theorem mergePDFs_concatenates_witness:
  "mergePDFs sample_load (save_document sample_save 0)
     [pdf_file ''a.pdf'' [1, 2], pdf_file ''b.pdf'' [3, 4, 5]] =
     Inr \<lparr>blob = \<lparr>blob_data = [1, 2, 3, 4, 5], blob_type = ''application/pdf''\<rparr>,
          size_bytes = 5, pages = 5\<rparr>
   \<and> isl (mergePDFs sample_load (save_document sample_save 0)
            [pdf_file ''a.pdf'' [1, 2], pdf_file ''bad.pdf'' []])"
  using mergePDFs_concatenates
          [of sample_load "[pdf_file ''a.pdf'' [1, 2], pdf_file ''b.pdf'' [3, 4, 5]]"
              "[[1, 2], [3, 4, 5]]" sample_save 0]
        mergePDFs_concatenates
          [of sample_load "[pdf_file ''a.pdf'' [1, 2], pdf_file ''bad.pdf'' []]" "[]"
              sample_save 0]
  by (simp add: sample_load_def sample_save_def pdf_file_def)

text \<open>
  C1 as stated covers every sequence of decodable files, the empty one included. There
  the inputs' page counts sum to 0 and 0 is reported, but the document returned is the
  saved one, which holds the library's blank page: counting its pages gives 1.
\<close>

theorem mergePDFs_page_count_counterexample:
  "mergePDFs sample_load (save_document sample_save 0) [] =
     Inr \<lparr>blob = \<lparr>blob_data = [0], blob_type = ''application/pdf''\<rparr>, size_bytes = 1, pages = 0\<rparr>
   \<and> getPDFPageCount sample_load
         (pdf_file ''merged.pdf''
            (blob_data (blob (projr (mergePDFs sample_load (save_document sample_save 0) [])))))
       = Inr 1
   \<and> sum_list (map length ([] :: nat list list)) = 0"
  by code_simp

text \<open>
  C10 (amended): on the empty sequence \<open>mergePDFs\<close> does not throw and reports 0 pages; the
  document it returns is the destination as the library saves it, which holds one page,
  the blank page added to a document without pages.
\<close>

theorem mergePDFs_empty:
  "mergePDFs load (save_document write blank) [] =
     Inr \<lparr>blob = \<lparr>blob_data = write [blank], blob_type = ''application/pdf''\<rparr>,
          size_bytes = length (write [blank]), pages = 0\<rparr>"
  by (simp add: mergePDFs_def create_def blob_size_def save_document_def saved_pages_empty)

theorem mergePDFs_empty_witness:
  "mergePDFs sample_load (save_document sample_save 7) [] =
     Inr \<lparr>blob = \<lparr>blob_data = [7], blob_type = ''application/pdf''\<rparr>, size_bytes = 1, pages = 0\<rparr>"
  using mergePDFs_empty [of sample_load sample_save 7]
  by (simp add: sample_save_def)

text \<open>
  C10 as stated has the returned document contain zero pages. The bytes returned for the
  empty sequence are those of the one-page document, not of the document without pages.
\<close>

theorem mergePDFs_empty_counterexample:
  "blob_data (blob (projr (mergePDFs sample_load (save_document sample_save 7) []))) = sample_save [7]
   \<and> sample_save [7] \<noteq> sample_save []
   \<and> length [7 :: nat] = 1"
  by code_simp

section \<open>Counting pages\<close>

lemma splitPDF_undecodable:
  "load (file_data f) = Inl e \<Longrightarrow> splitPDF load save f m opts = Inl e"
  by (simp add: splitPDF_def)

lemma mergePDFs_first_undecodable:
  "load (file_data f) = Inl e \<Longrightarrow> mergePDFs load save (f # fs) = Inl e"
  by (simp add: mergePDFs_def)

text \<open>
  C9: \<open>getPDFPageCount\<close> always returns a number, never throws: the page count when the
  file decodes, 0 when it does not; on the same undecodable file \<open>splitPDF\<close> and
  \<open>mergePDFs\<close> throw (the decoder's error itself when the file is split or is the first
  to be merged).
\<close>

theorem getPDFPageCount_soft_fail:
  "(\<exists>n. getPDFPageCount load f = Inr n)
   \<and> (\<forall>pdf. load (file_data f) = Inr pdf \<longrightarrow> getPDFPageCount load f = Inr (length pdf))
   \<and> (\<forall>e. load (file_data f) = Inl e \<longrightarrow>
         getPDFPageCount load f = Inr 0
         \<and> splitPDF load save f m opts = Inl e
         \<and> mergePDFs load save (f # fs) = Inl e
         \<and> (f \<in> set gs \<longrightarrow> isl (mergePDFs load save gs)))"
proof (cases "load (file_data f)")
  case (Inl e)
  have "isl (mergePDFs load save gs)" if "f \<in> set gs"
  proof -
    have "\<exists>g\<in>set gs. isl (load (file_data g))"
      using that Inl by (intro bexI [of _ f]) simp_all
    then show ?thesis by (rule mergePDFs_undecodable)
  qed
  with Inl show ?thesis
    by (simp add: getPDFPageCount_def splitPDF_undecodable mergePDFs_first_undecodable)
next
  case (Inr pdf)
  then show ?thesis
    by (simp add: getPDFPageCount_def getPageCount_def)
qed

theorem getPDFPageCount_soft_fail_witness:
  "getPDFPageCount sample_load (pdf_file ''a.pdf'' [7, 8, 9]) = Inr 3
   \<and> getPDFPageCount sample_load (pdf_file ''bad.pdf'' []) = Inr 0
   \<and> splitPDF sample_load sample_save (pdf_file ''bad.pdf'' []) ''all''
        \<lparr>opt_start = None, opt_end = None, opt_selectedPages = None\<rparr>
      = Inl (Error ''No PDF header found'')
   \<and> mergePDFs sample_load sample_save [pdf_file ''bad.pdf'' [], pdf_file ''a.pdf'' [7, 8, 9]]
      = Inl (Error ''No PDF header found'')
   \<and> isl (mergePDFs sample_load sample_save [pdf_file ''a.pdf'' [7, 8, 9], pdf_file ''bad.pdf'' []])"
  using getPDFPageCount_soft_fail
          [of sample_load "pdf_file ''a.pdf'' [7, 8, 9]" sample_save "''all''"
              "\<lparr>opt_start = None, opt_end = None, opt_selectedPages = None\<rparr>" "[]" "[]"]
        getPDFPageCount_soft_fail
          [of sample_load "pdf_file ''bad.pdf'' []" sample_save "''all''"
              "\<lparr>opt_start = None, opt_end = None, opt_selectedPages = None\<rparr>"
              "[pdf_file ''a.pdf'' [7, 8, 9]]"
              "[pdf_file ''a.pdf'' [7, 8, 9], pdf_file ''bad.pdf'' []]"]
  by (simp add: sample_load_def pdf_file_def)

section \<open>Splitting\<close>

lemma copyPages_in_document:
  "list_all (in_document pdf) idx \<Longrightarrow> copyPages pdf idx = Inr (map (\<lambda>i. pdf ! nat i) idx)"
  by (simp add: copyPages_def)

lemma copyPages_error:
  "copyPages pdf idx = Inl e \<Longrightarrow> \<exists>msg. e = TypeError msg"
  by (auto simp: copyPages_def split: if_splits)

lemma split_one_in_document:
  "list_all (in_document pdf) idx \<Longrightarrow>
     split_one save f pdf m n idx = Inr (split_file save f pdf m n idx)"
  by (simp add: split_one_def copyPages_in_document foldl_addPage create_def split_file_def)

lemma split_one_error:
  "split_one save f pdf m n idx = Inl e \<Longrightarrow> \<exists>msg. e = TypeError msg"
  by (auto simp: split_one_def Let_def split: sum.splits dest: copyPages_error)

lemma split_loop_in_document:
  "\<forall>idx\<in>set sets. list_all (in_document pdf) idx \<Longrightarrow>
     split_loop save f pdf m n sets acc = Inr (acc @ map (split_file save f pdf m n) sets)"
  by (induction sets arbitrary: acc) (simp_all add: split_one_in_document)

lemma split_loop_error:
  "split_loop save f pdf m n sets acc = Inl e \<Longrightarrow> \<exists>msg. e = TypeError msg"
proof (induction sets arbitrary: acc)
  case Nil
  then show ?case by simp
next
  case (Cons idx sets)
  then show ?case
    by (auto split: sum.splits dest: split_one_error)
qed

lemma splitPDF_in_document:
  assumes "load (file_data f) = Inr pdf"
    and "pageIndexSets (length pdf) m opts = Inr sets"
    and "\<forall>idx\<in>set sets. list_all (in_document pdf) idx"
  shows "splitPDF load save f m opts =
           Inr \<lparr>files = map (split_file save f pdf m (length sets)) sets,
                totalPages = length pdf\<rparr>"
  using assms by (simp add: splitPDF_def getPageCount_def split_loop_in_document)

lemma pageIndexSets_all:
  "pageIndexSets n ''all'' opts = Inr (map (\<lambda>i. [int i]) [0..<n])"
  by (simp add: pageIndexSets_def array_from_def)

text \<open>
  C3: on a document of N pages, method \<^verbatim>\<open>all\<close> returns N files in page order; the file at
  position k holds exactly one page, page k of the source (counting from 0 here, so the
  file is named after page k + 1).
\<close>

theorem splitPDF_all_single_pages:
  assumes "load (file_data f) = Inr pdf"
  shows "splitPDF load save f ''all'' opts =
           Inr \<lparr>files =
                  map (\<lambda>k. \<lparr>file_name = strip_ext (file_name f) @ ''_pages_''
                                         @ show_int (int k + 1) @ ''.pdf'',
                             file_type = ''application/pdf'',
                             file_data = save [pdf ! k]\<rparr>)
                      [0..<length pdf],
                totalPages = length pdf\<rparr>"
proof -
  have "\<forall>idx\<in>set (map (\<lambda>i. [int i]) [0..<length pdf]). list_all (in_document pdf) idx"
    by (simp add: in_document_def)
  from splitPDF_in_document
         [of load f pdf "''all''" opts "map (\<lambda>i. [int i]) [0..<length pdf]" save,
          OF assms pageIndexSets_all this]
  show ?thesis
    by (simp add: split_file_def split_file_name_def comp_def)
qed

theorem splitPDF_all_single_pages_witness:
  "splitPDF sample_load sample_save (pdf_file ''doc.pdf'' [7, 8, 9]) ''all''
     \<lparr>opt_start = None, opt_end = None, opt_selectedPages = None\<rparr> =
     Inr \<lparr>files = [pdf_file ''doc_pages_1.pdf'' [7], pdf_file ''doc_pages_2.pdf'' [8],
                   pdf_file ''doc_pages_3.pdf'' [9]],
          totalPages = 3\<rparr>"
proof -
  have names: "strip_ext ''doc.pdf'' = ''doc''" "show_int 1 = ''1''" "show_int 2 = ''2''"
    "show_int 3 = ''3''"
    by code_simp+
  have upt: "[0..<3] = [0, 1, 2]"
    by code_simp
  show ?thesis
    using splitPDF_all_single_pages
            [of sample_load "pdf_file ''doc.pdf'' [7, 8, 9]" "[7, 8, 9]" sample_save
                "\<lparr>opt_start = None, opt_end = None, opt_selectedPages = None\<rparr>"]
    by (simp add: sample_load_def sample_save_def pdf_file_def names upt ext_char_def)
qed

lemma map_nth_slice:
  assumes "0 \<le> a" and "nat a + n \<le> length xs"
  shows "map (\<lambda>i. xs ! nat (a + int i)) [0..<n] = take n (drop (nat a) xs)"
proof (rule nth_equalityI)
  show "length (map (\<lambda>i. xs ! nat (a + int i)) [0..<n]) = length (take n (drop (nat a) xs))"
    using assms by simp
next
  fix j
  assume "j < length (map (\<lambda>i. xs ! nat (a + int i)) [0..<n])"
  then have j: "j < n" by simp
  have "nat (a + int j) = nat a + j"
    using assms(1) by (simp add: nat_add_distrib)
  with j assms show "map (\<lambda>i. xs ! nat (a + int i)) [0..<n] ! j = take n (drop (nat a) xs) ! j"
    by simp
qed

lemma pageIndexSets_range:
  assumes "max 1 (js_or (opt_start opts) 1) \<le> min (int n) (js_or (opt_end opts) (int n))"
  shows "pageIndexSets n ''range'' opts =
           Inr [map (\<lambda>i. (max 1 (js_or (opt_start opts) 1) - 1) + int i)
                  [0..<nat (min (int n) (js_or (opt_end opts) (int n))
                            - max 1 (js_or (opt_start opts) 1) + 1)]]"
proof -
  define cs where "cs = max 1 (js_or (opt_start opts) 1)"
  define ce where "ce = min (int n) (js_or (opt_end opts) (int n))"
  have "\<not> cs - 1 > ce - 1"
    using assms unfolding cs_def ce_def by linarith
  then have "(let start = cs - 1; end = ce - 1
              in if start > end then Inl (Error ''Invalid page range'')
                 else Inr [array_from (nat (end - start + 1)) (\<lambda>i. start + int i)])
             = Inr [map (\<lambda>i. (cs - 1) + int i) [0..<nat (ce - cs + 1)]]"
    by (simp add: array_from_def Let_def)
  then show ?thesis
    unfolding pageIndexSets_def cs_def ce_def by simp
qed

lemma pageIndexSets_range_invalid:
  assumes "max 1 (js_or (opt_start opts) 1) > min (int n) (js_or (opt_end opts) (int n))"
  shows "pageIndexSets n ''range'' opts = Inl (Error ''Invalid page range'')"
  using assms by (simp add: pageIndexSets_def Let_def)

lemma first_index_from: "0 < n \<Longrightarrow> first_index (map (\<lambda>i. a + int i) [0..<n]) = Some a"
  by (simp add: first_index_def upt_conv_Cons)

lemma last_index_from:
  "0 < n \<Longrightarrow> last_index (map (\<lambda>i. a + int i) [0..<n]) = Some (a + int n - 1)"
  by (cases n) (simp_all add: last_index_def last_map)

lemma splitPDF_range_general:
  assumes ld: "load (file_data f) = Inr pdf"
    and le: "cs \<le> ce"
    and cs: "cs = max 1 (js_or (opt_start opts) 1)"
    and ce: "ce = min (int (length pdf)) (js_or (opt_end opts) (int (length pdf)))"
  shows "splitPDF load save f ''range'' opts =
           Inr \<lparr>files =
                  [\<lparr>file_name = strip_ext (file_name f) @ ''_pages_'' @ show_int cs @ ''-''
                                  @ show_int ce @ ''.pdf'',
                    file_type = ''application/pdf'',
                    file_data = save (take (nat (ce - cs + 1)) (drop (nat (cs - 1)) pdf))\<rparr>],
                totalPages = length pdf\<rparr>"
proof -
  let ?n = "nat (ce - cs + 1)"
  let ?idx = "map (\<lambda>i. (cs - 1) + int i) [0..<?n]"
  have sets: "pageIndexSets (length pdf) ''range'' opts = Inr [?idx]"
    using pageIndexSets_range [of opts "length pdf"] le cs ce by simp
  have cs1: "1 \<le> cs" and ceN: "ce \<le> int (length pdf)"
    using cs ce by simp_all
  have pos: "0 < ?n"
    using le by simp
  have indoc: "\<forall>idx\<in>set [?idx]. list_all (in_document pdf) idx"
    using cs1 ceN le by (auto simp: list_all_iff in_document_def)
  have slice: "map (\<lambda>i. pdf ! nat (cs - 1 + int i)) [0..<?n] = take ?n (drop (nat (cs - 1)) pdf)"
    using cs1 ceN le by (intro map_nth_slice) simp_all
  have name: "split_file_name (file_name f) ''range'' (Suc 0) ?idx =
                strip_ext (file_name f) @ ''_pages_'' @ show_int cs @ ''-'' @ show_int ce @ ''.pdf''"
    using le by (simp add: split_file_name_def first_index_from [OF pos] last_index_from [OF pos]
        show_plus_one_def)
  from splitPDF_in_document [of load f pdf "''range''" opts "[?idx]" save, OF ld sets indoc]
  show ?thesis
    by (simp add: split_file_def name comp_def slice)
qed

lemma slice_pages:
  assumes "1 \<le> cs" and "cs \<le> ce" and "ce \<le> int (length xs)"
  shows "take (nat (ce - cs + 1)) (drop (nat (cs - 1)) xs) = map (\<lambda>p. xs ! nat (p - 1)) [cs..ce]"
proof (rule nth_equalityI)
  show "length (take (nat (ce - cs + 1)) (drop (nat (cs - 1)) xs))
          = length (map (\<lambda>p. xs ! nat (p - 1)) [cs..ce])"
    using assms by auto
next
  fix j
  assume "j < length (take (nat (ce - cs + 1)) (drop (nat (cs - 1)) xs))"
  then have j: "j < nat (ce - cs + 1)"
    by simp
  then have "cs + int j \<le> ce"
    by linarith
  moreover have "nat (cs + int j - 1) = nat (cs - 1) + j"
    using assms(1) by linarith
  ultimately show "take (nat (ce - cs + 1)) (drop (nat (cs - 1)) xs) ! j
                     = map (\<lambda>p. xs ! nat (p - 1)) [cs..ce] ! j"
    using j assms by simp
qed

text \<open>
  C2: with start \<open>s\<close> and end \<open>e\<close> such that \<open>max 1 s \<le> min N e\<close>, method \<^verbatim>\<open>range\<close> returns
  one file; its pages are the source's pages number \<open>max 1 s\<close> to \<open>min N e\<close> (counted
  from 1) in source order, \<open>min N e - max 1 s + 1\<close> pages in all.
\<close>

theorem splitPDF_range_slice:
  assumes "load (file_data f) = Inr pdf"
    and "opt_start opts = Some s" and "opt_end opts = Some e"
    and "max 1 s \<le> min (int (length pdf)) e"
  shows "splitPDF load save f ''range'' opts =
           Inr \<lparr>files =
                  [\<lparr>file_name = strip_ext (file_name f) @ ''_pages_'' @ show_int (max 1 s)
                                  @ ''-'' @ show_int (min (int (length pdf)) e) @ ''.pdf'',
                    file_type = ''application/pdf'',
                    file_data =
                      save (map (\<lambda>p. pdf ! nat (p - 1)) [max 1 s..min (int (length pdf)) e])\<rparr>],
                totalPages = length pdf\<rparr>
         \<and> length (map (\<lambda>p. pdf ! nat (p - 1)) [max 1 s..min (int (length pdf)) e])
             = nat (min (int (length pdf)) e - max 1 s + 1)"
proof -
  have cs: "max 1 s = max 1 (js_or (opt_start opts) 1)"
    using assms(2) by (simp add: js_or_def)
  have "e \<noteq> 0"
    using assms(4) by auto
  then have ce: "min (int (length pdf)) e
                   = min (int (length pdf)) (js_or (opt_end opts) (int (length pdf)))"
    using assms(3) by (simp add: js_or_def)
  have pages: "take (nat (min (int (length pdf)) e - max 1 s + 1)) (drop (nat (max 1 s - 1)) pdf)
                 = map (\<lambda>p. pdf ! nat (p - 1)) [max 1 s..min (int (length pdf)) e]"
    using assms(4) by (intro slice_pages) simp_all
  from splitPDF_range_general
         [of load f pdf "max 1 s" "min (int (length pdf)) e" opts save,
          OF assms(1) assms(4) cs ce]
  show ?thesis
    by (simp only: pages length_map length_upto simp_thms)
qed

theorem splitPDF_range_slice_witness:
  "splitPDF sample_load sample_save (pdf_file ''doc.pdf'' [10, 20, 30, 40, 50]) ''range''
     \<lparr>opt_start = Some 2, opt_end = Some 4, opt_selectedPages = None\<rparr> =
     Inr \<lparr>files = [pdf_file ''doc_pages_2-4.pdf'' [20, 30, 40]], totalPages = 5\<rparr>"
proof -
  have names: "strip_ext ''doc.pdf'' = ''doc''" "show_int 2 = ''2''" "show_int 4 = ''4''"
    by code_simp+
  show ?thesis
    using splitPDF_range_slice
            [of sample_load "pdf_file ''doc.pdf'' [10, 20, 30, 40, 50]" "[10, 20, 30, 40, 50]"
                "\<lparr>opt_start = Some 2, opt_end = Some 4, opt_selectedPages = None\<rparr>" 2 4
                sample_save]
    by (simp add: sample_load_def sample_save_def pdf_file_def names ext_char_def)
qed

lemma sort_pred: "sort (map (\<lambda>p. p - 1) (sel :: int list)) = map (\<lambda>p. p - 1) (sort sel)"
proof (rule properties_for_sort)
  show "mset (map (\<lambda>p. p - 1) (sort sel)) = mset (map (\<lambda>p. p - 1) sel)"
    by simp
  have "sorted_wrt (\<lambda>x y. x - 1 \<le> y - 1) (sort sel)"
    by (rule sorted_wrt_mono_rel [of _ "(\<le>)"]) simp_all
  then show "sorted (map (\<lambda>p. p - 1) (sort sel))"
    by (simp only: sorted_map)
qed

lemma pageIndexSets_custom:
  "opt_selectedPages opts = Some sel \<Longrightarrow> sel \<noteq> [] \<Longrightarrow>
     pageIndexSets n ''custom'' opts = Inr [sort (map (\<lambda>p. p - 1) sel)]"
  by (simp add: pageIndexSets_def)

lemma pageIndexSets_custom_empty:
  "opt_selectedPages opts = None \<or> opt_selectedPages opts = Some [] \<Longrightarrow>
     pageIndexSets n ''custom'' opts = Inl (Error ''No pages selected'')"
  by (auto simp: pageIndexSets_def)

lemma pageIndexSets_other:
  "m \<noteq> ''all'' \<Longrightarrow> m \<noteq> ''range'' \<Longrightarrow> m \<noteq> ''custom'' \<Longrightarrow>
     pageIndexSets n m opts = Inl (Error ''Invalid split method'')"
  by (simp add: pageIndexSets_def)

lemma splitPDF_custom_general:
  assumes ld: "load (file_data f) = Inr pdf"
    and sel: "opt_selectedPages opts = Some sel" "sel \<noteq> []"
    and bounds: "\<forall>p\<in>set sel. 1 \<le> p \<and> p \<le> int (length pdf)"
  shows "splitPDF load save f ''custom'' opts =
           Inr \<lparr>files =
                  [\<lparr>file_name = strip_ext (file_name f) @ ''.pdf'',
                    file_type = ''application/pdf'',
                    file_data = save (map (\<lambda>p. pdf ! nat (p - 1)) (sort sel))\<rparr>],
                totalPages = length pdf\<rparr>"
proof -
  let ?idx = "sort (map (\<lambda>p. p - 1) sel)"
  have sets: "pageIndexSets (length pdf) ''custom'' opts = Inr [?idx]"
    using sel by (rule pageIndexSets_custom)
  have indoc: "\<forall>idx\<in>set [?idx]. list_all (in_document pdf) idx"
    using bounds by (auto simp: list_all_iff in_document_def)
  from splitPDF_in_document [of load f pdf "''custom''" opts "[?idx]" save, OF ld sets indoc]
  show ?thesis
    by (simp add: split_file_def split_file_name_def sort_pred comp_def)
qed

text \<open>
  C5: with a non-empty list of page numbers between 1 and N, method \<^verbatim>\<open>custom\<close> returns one
  file whose pages are the selected pages in ascending page order; the result depends
  only on which pages were listed (and how often), not on the order of the list.
\<close>

theorem splitPDF_custom_sorted:
  assumes "load (file_data f) = Inr pdf"
    and "opt_selectedPages opts = Some sel" and "sel \<noteq> []"
    and "\<forall>p\<in>set sel. 1 \<le> p \<and> p \<le> int (length pdf)"
  shows "splitPDF load save f ''custom'' opts =
           Inr \<lparr>files =
                  [\<lparr>file_name = strip_ext (file_name f) @ ''.pdf'',
                    file_type = ''application/pdf'',
                    file_data = save (map (\<lambda>p. pdf ! nat (p - 1)) (sort sel))\<rparr>],
                totalPages = length pdf\<rparr>
         \<and> sorted (sort sel) \<and> mset (sort sel) = mset sel
         \<and> (mset sel' = mset sel \<longrightarrow>
               splitPDF load save f ''custom'' (opts\<lparr>opt_selectedPages := Some sel'\<rparr>)
                 = splitPDF load save f ''custom'' opts)"
proof -
  have here: "splitPDF load save f ''custom'' opts =
           Inr \<lparr>files =
                  [\<lparr>file_name = strip_ext (file_name f) @ ''.pdf'',
                    file_type = ''application/pdf'',
                    file_data = save (map (\<lambda>p. pdf ! nat (p - 1)) (sort sel))\<rparr>],
                totalPages = length pdf\<rparr>"
    using assms by (rule splitPDF_custom_general)
  have there: "splitPDF load save f ''custom'' (opts\<lparr>opt_selectedPages := Some sel'\<rparr>)
                 = splitPDF load save f ''custom'' opts" if perm: "mset sel' = mset sel"
  proof -
    have "set sel' = set sel"
      using perm by (rule mset_eq_setD)
    moreover have "sel' \<noteq> []"
      using perm assms(3) by auto
    ultimately have "splitPDF load save f ''custom'' (opts\<lparr>opt_selectedPages := Some sel'\<rparr>) =
           Inr \<lparr>files =
                  [\<lparr>file_name = strip_ext (file_name f) @ ''.pdf'',
                    file_type = ''application/pdf'',
                    file_data = save (map (\<lambda>p. pdf ! nat (p - 1)) (sort sel'))\<rparr>],
                totalPages = length pdf\<rparr>"
      using assms(1,4) by (intro splitPDF_custom_general) simp_all
    moreover have "sort sel' = sort sel"
      using perm by (intro properties_for_sort) simp_all
    ultimately show ?thesis
      using here by simp
  qed
  show ?thesis
    using here there by simp
qed

theorem splitPDF_custom_sorted_witness:
  "splitPDF sample_load sample_save (pdf_file ''doc.pdf'' [10, 20, 30]) ''custom''
     \<lparr>opt_start = None, opt_end = None, opt_selectedPages = Some [3, 1, 2]\<rparr> =
     Inr \<lparr>files = [pdf_file ''doc.pdf'' [10, 20, 30]], totalPages = 3\<rparr>
   \<and> splitPDF sample_load sample_save (pdf_file ''doc.pdf'' [10, 20, 30]) ''custom''
       \<lparr>opt_start = None, opt_end = None, opt_selectedPages = Some [1, 2, 3]\<rparr> =
     splitPDF sample_load sample_save (pdf_file ''doc.pdf'' [10, 20, 30]) ''custom''
       \<lparr>opt_start = None, opt_end = None, opt_selectedPages = Some [3, 1, 2]\<rparr>"
proof -
  have names: "strip_ext ''doc.pdf'' = ''doc''"
    by code_simp
  show ?thesis
    using splitPDF_custom_sorted
            [of sample_load "pdf_file ''doc.pdf'' [10, 20, 30]" "[10, 20, 30]"
                "\<lparr>opt_start = None, opt_end = None, opt_selectedPages = Some [3, 1, 2]\<rparr>"
                "[3, 1, 2]" sample_save "[1, 2, 3]"]
    by (simp add: sample_load_def sample_save_def pdf_file_def names ext_char_def)
qed

section \<open>Errors of splitting, and the page-index sequences\<close>

lemma splitPDF_indices_error:
  "load (file_data f) = Inr pdf \<Longrightarrow> pageIndexSets (length pdf) m opts = Inl e \<Longrightarrow>
     splitPDF load save f m opts = Inl e"
  by (simp add: splitPDF_def getPageCount_def)

lemma splitPDF_copy_error:
  assumes "load (file_data f) = Inr pdf" and "pageIndexSets (length pdf) m opts = Inr sets"
    and "splitPDF load save f m opts = Inl e"
  shows "\<not> invalid_parameter e"
proof -
  from assms have "split_loop save f pdf m (length sets) sets [] = Inl e"
    by (simp add: splitPDF_def getPageCount_def split: sum.splits)
  then obtain msg where "e = TypeError msg"
    by (blast dest: split_loop_error)
  then show ?thesis
    by (simp add: invalid_parameter_def)
qed

lemma pageIndexSets_rejected:
  "rejected n m opts \<Longrightarrow> \<exists>e. pageIndexSets n m opts = Inl e \<and> invalid_parameter e"
  unfolding rejected_def
  by (auto simp: pageIndexSets_range_invalid pageIndexSets_custom_empty pageIndexSets_other
      invalid_parameter_def)

lemma accepted_cases:
  assumes "\<not> rejected n m opts"
  obtains "m = ''all''"
    | "m = ''range''"
      "max 1 (js_or (opt_start opts) 1) \<le> min (int n) (js_or (opt_end opts) (int n))"
    | sel where "m = ''custom''" "opt_selectedPages opts = Some sel" "sel \<noteq> []"
proof (cases "m = ''all''")
  case True
  then show ?thesis by (rule that(1))
next
  case notall: False
  show ?thesis
  proof (cases "m = ''range''")
    case True
    with assms have "max 1 (js_or (opt_start opts) 1)
                       \<le> min (int n) (js_or (opt_end opts) (int n))"
      unfolding rejected_def by (simp add: not_less)
    with True show ?thesis by (rule that(2))
  next
    case notrange: False
    with notall assms have m: "m = ''custom''"
      unfolding rejected_def by blast
    with assms obtain sel where "opt_selectedPages opts = Some sel" "sel \<noteq> []"
      unfolding rejected_def by (cases "opt_selectedPages opts") simp_all
    with m show ?thesis by (rule that(3))
  qed
qed

lemma pageIndexSets_accepted:
  assumes "\<not> rejected n m opts"
  shows "\<exists>sets. pageIndexSets n m opts = Inr sets"
  using assms
proof (cases rule: accepted_cases)
  case 1
  then show ?thesis by (simp add: pageIndexSets_all)
next
  case 2
  then show ?thesis by (simp add: pageIndexSets_range)
next
  case 3
  then show ?thesis by (simp add: pageIndexSets_custom)
qed

text \<open>
  The parameter errors of \<open>splitPDF\<close> on a document that decodes, with the defaulting of
  \<^verbatim>\<open>options.start || 1\<close> and \<^verbatim>\<open>options.end || totalPages\<close> as the code has it.
\<close>

lemma splitPDF_parameter_errors:
  assumes "load (file_data f) = Inr pdf"
  shows "((\<exists>e. splitPDF load save f m opts = Inl e \<and> invalid_parameter e)
            \<longleftrightarrow>
              (m = ''range''
                 \<and> max 1 (js_or (opt_start opts) 1)
                     > min (int (length pdf)) (js_or (opt_end opts) (int (length pdf)))
               \<or> m = ''custom''
                 \<and> (opt_selectedPages opts = None \<or> opt_selectedPages opts = Some [])
               \<or> m \<noteq> ''all'' \<and> m \<noteq> ''range'' \<and> m \<noteq> ''custom''))
         \<and> (m = ''range''
              \<and> max 1 (js_or (opt_start opts) 1)
                  > min (int (length pdf)) (js_or (opt_end opts) (int (length pdf)))
            \<longrightarrow> splitPDF load save f m opts = Inl (Error ''Invalid page range''))
         \<and> (m = ''custom''
              \<and> (opt_selectedPages opts = None \<or> opt_selectedPages opts = Some [])
            \<longrightarrow> splitPDF load save f m opts = Inl (Error ''No pages selected''))
         \<and> (m \<noteq> ''all'' \<and> m \<noteq> ''range'' \<and> m \<noteq> ''custom''
            \<longrightarrow> splitPDF load save f m opts = Inl (Error ''Invalid split method''))"
proof -
  have iff: "(\<exists>e. splitPDF load save f m opts = Inl e \<and> invalid_parameter e)
               \<longleftrightarrow> rejected (length pdf) m opts"
  proof
    assume "\<exists>e. splitPDF load save f m opts = Inl e \<and> invalid_parameter e"
    then obtain e where e: "splitPDF load save f m opts = Inl e" "invalid_parameter e"
      by blast
    show "rejected (length pdf) m opts"
    proof (rule ccontr)
      assume "\<not> rejected (length pdf) m opts"
      then obtain sets where "pageIndexSets (length pdf) m opts = Inr sets"
        using pageIndexSets_accepted by blast
      from splitPDF_copy_error [OF assms this e(1)] e(2) show False
        by simp
    qed
  next
    assume "rejected (length pdf) m opts"
    then obtain e where "pageIndexSets (length pdf) m opts = Inl e" "invalid_parameter e"
      using pageIndexSets_rejected by blast
    then show "\<exists>e. splitPDF load save f m opts = Inl e \<and> invalid_parameter e"
      using splitPDF_indices_error [of load f pdf m opts e save, OF assms] by blast
  qed
  have range: "splitPDF load save f m opts = Inl (Error ''Invalid page range'')"
    if "m = ''range''"
      "max 1 (js_or (opt_start opts) 1)
         > min (int (length pdf)) (js_or (opt_end opts) (int (length pdf)))"
  proof -
    have "pageIndexSets (length pdf) m opts = Inl (Error ''Invalid page range'')"
      unfolding that(1) using that(2) by (rule pageIndexSets_range_invalid)
    then show ?thesis
      by (rule splitPDF_indices_error [of load f pdf, OF assms])
  qed
  have custom: "splitPDF load save f m opts = Inl (Error ''No pages selected'')"
    if "m = ''custom''" "opt_selectedPages opts = None \<or> opt_selectedPages opts = Some []"
  proof -
    have "pageIndexSets (length pdf) m opts = Inl (Error ''No pages selected'')"
      unfolding that(1) using that(2) by (rule pageIndexSets_custom_empty)
    then show ?thesis
      by (rule splitPDF_indices_error [of load f pdf, OF assms])
  qed
  have other: "splitPDF load save f m opts = Inl (Error ''Invalid split method'')"
    if "m \<noteq> ''all''" "m \<noteq> ''range''" "m \<noteq> ''custom''"
  proof -
    have "pageIndexSets (length pdf) m opts = Inl (Error ''Invalid split method'')"
      using that by (rule pageIndexSets_other)
    then show ?thesis
      by (rule splitPDF_indices_error [of load f pdf, OF assms])
  qed
  from iff range custom other show ?thesis
    unfolding rejected_def by blast
qed

text \<open>
  C4: the claim has method \<^verbatim>\<open>range\<close> fail whenever \<open>max 1 start\<close> exceeds \<open>min N end\<close>. The
  code's guard \<^verbatim>\<open>if (start > end)\<close> does reject such a range, end -1 for one, but not end
  0: \<^verbatim>\<open>options.end || totalPages\<close> reads the 0 as an absent end. On three pages, start 1
  with end 0 returns pages 1 to 3 and start 3 with end 0 returns page 3, where \<open>min N end\<close>
  is 0 and below any start.
\<close>

theorem splitPDF_range_end_zero:
  "splitPDF sample_load sample_save (pdf_file ''doc.pdf'' [10, 20, 30]) ''range''
     \<lparr>opt_start = Some 1, opt_end = Some 0, opt_selectedPages = None\<rparr>
     = Inr \<lparr>files = [pdf_file ''doc_pages_1-3.pdf'' [10, 20, 30]], totalPages = 3\<rparr>
   \<and> splitPDF sample_load sample_save (pdf_file ''doc.pdf'' [10, 20, 30]) ''range''
       \<lparr>opt_start = Some 3, opt_end = Some 0, opt_selectedPages = None\<rparr>
     = Inr \<lparr>files = [pdf_file ''doc_pages_3-3.pdf'' [30]], totalPages = 3\<rparr>
   \<and> splitPDF sample_load sample_save (pdf_file ''doc.pdf'' [10, 20, 30]) ''range''
       \<lparr>opt_start = Some 1, opt_end = Some (- 1), opt_selectedPages = None\<rparr>
     = Inl (Error ''Invalid page range'')
   \<and> min (int (length [10, 20, 30 :: nat])) 0 < max 1 (1 :: int)"
  by code_simp

lemma sorted_from: "sorted (map (\<lambda>i. (a :: int) + int i) [0..<k])"
  by (simp add: sorted_map sorted_wrt_iff_nth_less)

lemma distinct_from: "distinct (map (\<lambda>i. (a :: int) + int i) [0..<k])"
  by (simp add: distinct_map inj_on_def)

lemma distinct_pred: "distinct (map (\<lambda>p. p - 1) (sel :: int list)) = distinct sel"
  by (simp add: distinct_map inj_on_def)

text \<open>
  C6 (amended): every list of page-index sequences the \<^verbatim>\<open>switch\<close> produces has sequences
  in non-decreasing order; there are N of them for \<^verbatim>\<open>all\<close> and one for \<^verbatim>\<open>range\<close> and
  for \<^verbatim>\<open>custom\<close>; the indices of a sequence are unique for \<^verbatim>\<open>all\<close> and \<^verbatim>\<open>range\<close>, and for
  \<^verbatim>\<open>custom\<close> exactly when the caller's list names no page twice.
\<close>

theorem pageIndexSets_sorted_counted:
  assumes "pageIndexSets n m opts = Inr sets"
  shows "(\<forall>s\<in>set sets. sorted s)
         \<and> (m = ''all'' \<longrightarrow> length sets = n \<and> (\<forall>s\<in>set sets. distinct s))
         \<and> (m = ''range'' \<longrightarrow> length sets = 1 \<and> (\<forall>s\<in>set sets. distinct s))
         \<and> (m = ''custom'' \<longrightarrow>
               length sets = 1
               \<and> (\<forall>sel. opt_selectedPages opts = Some sel \<longrightarrow>
                     ((\<forall>s\<in>set sets. distinct s) \<longleftrightarrow> distinct sel)))"
proof -
  have "\<not> rejected n m opts"
    using assms pageIndexSets_rejected [of n m opts] by auto
  then consider "m = ''all''"
    | "m = ''range''"
      "max 1 (js_or (opt_start opts) 1) \<le> min (int n) (js_or (opt_end opts) (int n))"
    | sel where "m = ''custom''" "opt_selectedPages opts = Some sel" "sel \<noteq> []"
    by (rule accepted_cases)
  then show ?thesis
  proof cases
    case 1
    with assms have "sets = map (\<lambda>i. [int i]) [0..<n]"
      by (simp add: pageIndexSets_all)
    with 1 show ?thesis by auto
  next
    case 2
    from assms pageIndexSets_range [OF 2(2)] 2(1)
    have "sets = [map (\<lambda>i. (max 1 (js_or (opt_start opts) 1) - 1) + int i)
                    [0..<nat (min (int n) (js_or (opt_end opts) (int n))
                              - max 1 (js_or (opt_start opts) 1) + 1)]]"
      by simp
    with 2(1) show ?thesis
      using sorted_from distinct_from by simp
  next
    case 3
    with assms have "sets = [sort (map (\<lambda>p. p - 1) sel)]"
      by (simp add: pageIndexSets_custom)
    with 3 show ?thesis
      by (simp add: distinct_pred)
  qed
qed

theorem pageIndexSets_sorted_counted_witness:
  "sorted [0, 1, 2 :: int] \<and> distinct [0, 1, 2 :: int]
   \<and> pageIndexSets 3 ''custom''
       \<lparr>opt_start = None, opt_end = None, opt_selectedPages = Some [3, 1, 2]\<rparr> = Inr [[0, 1, 2]]"
  using pageIndexSets_sorted_counted
          [of 3 "''custom''"
              "\<lparr>opt_start = None, opt_end = None, opt_selectedPages = Some [3, 1, 2]\<rparr>"
              "[[0, 1, 2]]"]
  by (simp add: pageIndexSets_def)

text \<open>
  C6 as stated asks for unique indices whatever the options. A selection that names page 2
  twice yields the sequence 1, 1: the code sorts the selection and does not deduplicate it.
\<close>

theorem pageIndexSets_repeated_page_counterexample:
  "pageIndexSets 3 ''custom''
     \<lparr>opt_start = None, opt_end = None, opt_selectedPages = Some [2, 2]\<rparr> = Inr [[1, 1]]
   \<and> \<not> distinct [1, 1 :: int]"
  by (simp add: pageIndexSets_def)

section \<open>Images\<close>

lemma strip_ext_extension:
  "ext \<noteq> [] \<Longrightarrow> list_all ext_char ext \<Longrightarrow> strip_ext (base @ CHR ''.'' # ext) = base"
proof (induction base)
  case Nil
  then show ?case by simp
next
  case (Cons c base)
  have "\<not> list_all ext_char (base @ CHR ''.'' # ext)"
    by (simp add: ext_char_def)
  with Cons show ?case by simp
qed

lemma strip_ext_no_dot: "CHR ''.'' \<notin> set n \<Longrightarrow> strip_ext n = n"
  by (induction n) auto

text \<open>
  C8: when the file decodes, \<open>convertToWebP\<close> encodes the canvas (the image at its
  natural size) as \<^verbatim>\<open>image/webp\<close> at the given quality, or at quality 1 when \<open>lossless\<close>
  holds, whatever quality was given; the output's name is the source's name with its
  extension (a last dot followed by one or more characters other than dot and slash)
  replaced by \<^verbatim>\<open>.webp\<close>, or with \<^verbatim>\<open>.webp\<close> appended when the name has no dot; when the file
  does not decode, the call rejects with \<^verbatim>\<open>Failed to load image\<close>.
\<close>

theorem convertToWebP_contract:
  "(decode (file_data f) = Some img \<longrightarrow>
      convertToWebP decode encode f quality lossless =
        Inr \<lparr>file_name = strip_ext (file_name f) @ ''.webp'',
             file_type = ''image/webp'',
             file_data =
               encode \<lparr>canvas_width = img_width img, canvas_height = img_height img,
                       canvas_drawn = img\<rparr>
                 ''image/webp'' (if lossless then 1 else quality)\<rparr>
      \<and> convertToWebP decode encode f quality True = convertToWebP decode encode f quality' True)
   \<and> (decode (file_data f) = None \<longrightarrow>
        convertToWebP decode encode f quality lossless = Inl (Error ''Failed to load image''))
   \<and> (ext \<noteq> [] \<and> list_all ext_char ext \<longrightarrow> strip_ext (base @ CHR ''.'' # ext) = base)
   \<and> (CHR ''.'' \<notin> set base \<longrightarrow> strip_ext base = base)"
  by (simp add: convertToWebP_def strip_ext_extension strip_ext_no_dot)

theorem convertToWebP_contract_witness:
  "convertToWebP sample_decode sample_encode (image_file ''photo.png'' [2, 1, 7, 9]) (4 / 5) False
     = Inr \<lparr>file_name = ''photo.webp'', file_type = ''image/webp'', file_data = [2, 1, 80, 7, 9]\<rparr>
   \<and> convertToWebP sample_decode sample_encode (image_file ''photo.png'' [2, 1, 7, 9]) (4 / 5) True
     = Inr \<lparr>file_name = ''photo.webp'', file_type = ''image/webp'', file_data = [2, 1, 100, 7, 9]\<rparr>
   \<and> convertToWebP sample_decode sample_encode (image_file ''notes.txt'' [5]) (4 / 5) False
     = Inl (Error ''Failed to load image'')"
proof -
  have q: "nat \<lfloor>(4 / 5 :: rat) * 100\<rfloor> = 80" "nat \<lfloor>(1 :: rat) * 100\<rfloor> = 100"
    by simp_all
  have n: "strip_ext ''photo.png'' = ''photo''"
    by code_simp
  show ?thesis
    using convertToWebP_contract
            [of sample_decode "image_file ''photo.png'' [2, 1, 7, 9]"
                "\<lparr>img_width = 2, img_height = 1, img_pixels = [7, 9]\<rparr>" sample_encode
                "4 / 5" False "4 / 5" "''png''" "''photo''"]
          convertToWebP_contract
            [of sample_decode "image_file ''photo.png'' [2, 1, 7, 9]"
                "\<lparr>img_width = 2, img_height = 1, img_pixels = [7, 9]\<rparr>" sample_encode
                "4 / 5" True "4 / 5" "''png''" "''photo''"]
          convertToWebP_contract
            [of sample_decode "image_file ''notes.txt'' [5]"
                "\<lparr>img_width = 2, img_height = 1, img_pixels = [7, 9]\<rparr>" sample_encode
                "4 / 5" False "4 / 5" "''txt''" "''notes''"]
    by (simp add: sample_decode_def sample_encode_def image_file_def q ext_char_def)
qed

section \<open>Rounding, and the size of a resized image\<close>



























text \<open>
  Before the canvas cuts them, the computed sides can also lie above the requested box: an
  11 by 11 image fitted into 100 by 1000 gets 100 plus one unit in the last place, and a
  canvas 100 by 100.
\<close>

lemma resize_dims_above_box:
  "resize_dims (Num 11) (Num 11) (Num 100) (Num 1000) True
     = (Num (100 + 1 / 2 ^ 46), Num (100 + 1 / 2 ^ 46))
   \<and> resize_canvas (Num 11) (Num 11) (Num 100) (Num 1000) True = (100, 100)"
  by code_simp

end
